theory Spec2Isabelle
  imports Main "HOL-Library.Word"
begin

section \<open>Data model of \<open>mtproto/concurrent_sender.cpp\<close>\<close>

text \<open>
  Request ids are only compared, stored and value-initialised (to zero) by the sender, so
  they are integers here. A response is a sequence of bytes, a serialized request a
  sequence of 32-bit primes.
\<close>

type_synonym mtpRequestId = int
type_synonym bytes = "8 word list"
type_synonym mtpRequest = "32 word list"

record RPCError =
  error_type :: string
  error_description :: string

text \<open>
  What a callback can throw: \<open>Exception what\<close> is an object of the class named in
  \<open>catch (Exception &e)\<close>, carrying the text of \<open>e.what()\<close>; \<open>Other_exception\<close> is anything
  that handler does not catch.
\<close>

datatype exn = Exception string | Other_exception

text \<open>
  The pair of callbacks of one request. A callback is given by what its invocation
  throws (\<open>None\<close>: it returns). \<open>handlers_tag\<close> names the pair, so that the record of
  invocations tells the pairs apart.
\<close>

record Handlers =
  handlers_tag :: nat
  done_handler :: "mtpRequestId \<Rightarrow> bytes \<Rightarrow> exn option"
  fail_handler :: "mtpRequestId \<Rightarrow> RPCError \<Rightarrow> exn option"

text \<open>One invocation of a caller's callback: the pair, and the arguments passed.\<close>

datatype call =
  Done_call nat mtpRequestId bytes
| Fail_call nat mtpRequestId RPCError

text \<open>
  The enumeration is declared in the header. The fail handler tests two enumerators and
  falls through for any other one, which is \<open>HandleAll\<close> here.
\<close>

datatype FailSkipPolicy = Simple | HandleFlood | HandleAll

text \<open>The closures the two response handlers pass to the runner.\<close>

datatype continuation =
  Done_cont mtpRequestId bytes
| Fail_cont mtpRequestId RPCError

text \<open>
  The closures passed to \<open>with_instance\<close>: the hand-off of \<open>send\<close> (request id, request,
  the policy of its fail handler, dcId, msCanWait, afterRequestId), the closure of
  \<open>senderRequestCancel\<close> and the closure of \<open>senderRequestCancelAll\<close> with its captured
  list.
\<close>

datatype main_task =
  Send_task mtpRequestId mtpRequest FailSkipPolicy int int mtpRequestId
| Cancel_task mtpRequestId
| CancelAll_task "mtpRequestId list"

text \<open>The calls made on the \<open>Instance\<close>.\<close>

datatype engine_call =
  Engine_sendSerialized mtpRequestId mtpRequest FailSkipPolicy int int mtpRequestId
| Engine_cancel mtpRequestId

text \<open>
  One sender and what surrounds it. \<open>alive\<close> is what \<open>weak.get()\<close> tests; \<open>requests\<close> is
  \<open>_requests\<close>; \<open>runner_queue\<close> holds the closures given to \<open>_runner\<close> and not yet run;
  \<open>main_queue\<close> the closures posted by \<open>crl::on_main\<close> and not yet run; \<open>engine_calls\<close>
  the calls made on the instance so far; \<open>calls\<close> the invocations of callers' callbacks so
  far; \<open>last_request_id\<close> the state of the request id generator.
\<close>

record world =
  alive :: bool
  requests :: "(mtpRequestId \<times> Handlers) list"
  runner_queue :: "continuation list"
  main_queue :: "main_task list"
  engine_calls :: "engine_call list"
  calls :: "call list"
  last_request_id :: mtpRequestId

record RequestBuilder =
  builder_serialized :: mtpRequest
  builder_dcId :: int
  builder_canWait :: int
  builder_failSkipPolicy :: FailSkipPolicy
  builder_afterRequestId :: mtpRequestId
  builder_handlers :: Handlers

section \<open>The container of pending requests\<close>

text \<open>
  Modelled from the spec: \<open>base::flat_map\<close> (base/flat_map.h) is not among the sources.
  The spec calls it a mapping in which a request id appears at most once; a flat map keeps
  its entries in a vector ordered by key. \<open>emplace\<close> inserts only when the key is absent,
  \<open>take\<close> removes the entry of a key and returns its value if there is one, \<open>erase\<close>
  removes the entry of a key, \<open>size\<close> is the number of entries and iteration goes through
  the entries in key order.
\<close>

definition flat_map_inv :: "(mtpRequestId \<times> 'v) list \<Rightarrow> bool" where
  "flat_map_inv m = sorted_wrt (<) (map fst m)"

fun flat_map_emplace ::
  "mtpRequestId \<Rightarrow> 'v \<Rightarrow> (mtpRequestId \<times> 'v) list \<Rightarrow> (mtpRequestId \<times> 'v) list" where
  "flat_map_emplace k v [] = [(k, v)]"
| "flat_map_emplace k v ((k', v') # m) =
     (if k < k' then (k, v) # (k', v') # m
      else if k = k' then (k', v') # m
      else (k', v') # flat_map_emplace k v m)"

fun flat_map_erase ::
  "mtpRequestId \<Rightarrow> (mtpRequestId \<times> 'v) list \<Rightarrow> (mtpRequestId \<times> 'v) list" where
  "flat_map_erase k [] = []"
| "flat_map_erase k ((k', v') # m) =
     (if k = k' then m else (k', v') # flat_map_erase k m)"

definition flat_map_take ::
  "mtpRequestId \<Rightarrow> (mtpRequestId \<times> 'v) list \<Rightarrow> 'v option \<times> (mtpRequestId \<times> 'v) list" where
  "flat_map_take k m =
     (case map_of m k of
        None \<Rightarrow> (None, m)
      | Some v \<Rightarrow> (Some v, flat_map_erase k m))"

definition flat_map_size :: "(mtpRequestId \<times> 'v) list \<Rightarrow> nat" where
  "flat_map_size m = length m"

text \<open>\<open>base::take(value)\<close> returns the value and leaves a default-constructed one behind.\<close>

definition base_take :: "'a list \<Rightarrow> 'a list \<times> 'a list" where
  "base_take v = (v, [])"

section \<open>Collaborators\<close>

text \<open>
  Modelled from the spec: \<open>internal::rpcClientError\<close> (mtproto/rpc_sender.h) is not among
  the sources. The spec writes the call as \<open>SyntheticError(code, details)\<close>, an error value
  of that code carrying those details.
\<close>

definition rpcClientError :: "string \<Rightarrow> string \<Rightarrow> RPCError" where
  "rpcClientError type description =
     \<lparr>error_type = type, error_description = description\<rparr>"

text \<open>
  Modelled from the spec: \<open>GetNextRequestId\<close> is not among the sources. The spec describes
  a process-wide counter with the single contract fetch-and-increment: ids strictly
  increase and are never reused.
\<close>

definition GetNextRequestId :: "world \<Rightarrow> mtpRequestId \<times> world" where
  "GetNextRequestId w =
     (last_request_id w + 1, w\<lparr>last_request_id := last_request_id w + 1\<rparr>)"

text \<open>
  \<open>_runner(closure)\<close>: the runner belongs to the caller and runs the closure at a time of
  its choosing; the closure waits in \<open>runner_queue\<close> until \<open>run_continuation\<close> executes it.
\<close>

definition runner :: "continuation \<Rightarrow> world \<Rightarrow> world" where
  "runner c w = w\<lparr>runner_queue := runner_queue w @ [c]\<rparr>"

text \<open>
  \<open>with_instance(method)\<close> posts a closure with \<open>crl::on_main\<close>; when the closure runs it
  calls the method only if \<open>MainInstance()\<close> is not null (\<open>run_main_task\<close> below).
\<close>

definition with_instance :: "main_task \<Rightarrow> world \<Rightarrow> world" where
  "with_instance t w = w\<lparr>main_queue := main_queue w @ [t]\<rparr>"

fun run_main_task :: "bool \<Rightarrow> main_task \<Rightarrow> world \<Rightarrow> world" where
  "run_main_task instance (Send_task requestId request policy dcId msCanWait afterRequestId) w =
     (if instance
      then w\<lparr>engine_calls := engine_calls w @
             [Engine_sendSerialized requestId request policy dcId msCanWait afterRequestId]\<rparr>
      else w)"
| "run_main_task instance (Cancel_task requestId) w =
     (if instance
      then w\<lparr>engine_calls := engine_calls w @ [Engine_cancel requestId]\<rparr>
      else w)"
| "run_main_task instance (CancelAll_task list) w =
     (if instance
      then w\<lparr>engine_calls := engine_calls w @ map Engine_cancel list\<rparr>
      else w)"

section \<open>\<open>ConcurrentSender\<close>\<close>

definition senderRequestRegister :: "mtpRequestId \<Rightarrow> Handlers \<Rightarrow> world \<Rightarrow> world" where
  "senderRequestRegister requestId handlers w =
     w\<lparr>requests := flat_map_emplace requestId handlers (requests w)\<rparr>"

text \<open>
  The result is the exception that leaves the function, if any, and the state it leaves
  behind: an exception does not undo the removal of the entry.
\<close>

definition senderRequestDone :: "mtpRequestId \<Rightarrow> bytes \<Rightarrow> world \<Rightarrow> exn option \<times> world" where
  "senderRequestDone requestId result w =
     (case flat_map_take requestId (requests w) of
        (None, _) \<Rightarrow> (None, w)
      | (Some handlers, m) \<Rightarrow>
          (let w1 = w\<lparr>requests := m,
                      calls := calls w @ [Done_call (handlers_tag handlers) requestId result]\<rparr>
           in case done_handler handlers requestId result of
                None \<Rightarrow> (None, w1)
              | Some (Exception what) \<Rightarrow>
                  (let error = rpcClientError ''RESPONSE_PARSE_FAILED''
                                 (''exception text: '' @ what)
                   in (fail_handler handlers requestId error,
                       w1\<lparr>calls := calls w1 @
                            [Fail_call (handlers_tag handlers) requestId error]\<rparr>))
              | Some Other_exception \<Rightarrow> (Some Other_exception, w1)))"

definition senderRequestFail :: "mtpRequestId \<Rightarrow> RPCError \<Rightarrow> world \<Rightarrow> exn option \<times> world" where
  "senderRequestFail requestId error w =
     (case flat_map_take requestId (requests w) of
        (None, _) \<Rightarrow> (None, w)
      | (Some handlers, m) \<Rightarrow>
          (fail_handler handlers requestId error,
           w\<lparr>requests := m,
             calls := calls w @ [Fail_call (handlers_tag handlers) requestId error]\<rparr>))"

definition senderRequestDetach :: "mtpRequestId \<Rightarrow> world \<Rightarrow> world" where
  "senderRequestDetach requestId w =
     w\<lparr>requests := flat_map_erase requestId (requests w)\<rparr>"

definition senderRequestCancel :: "mtpRequestId \<Rightarrow> world \<Rightarrow> world" where
  "senderRequestCancel requestId w =
     with_instance (Cancel_task requestId) (senderRequestDetach requestId w)"

text \<open>
  \<open>std::vector<mtpRequestId>(n)\<close> is a vector of \<open>n\<close> value-initialised elements; the loop
  appends to it with \<open>push_back\<close>.
\<close>

definition senderRequestCancelAll :: "world \<Rightarrow> world" where
  "senderRequestCancelAll w =
     (let list0 = replicate (flat_map_size (requests w)) (0 :: mtpRequestId);
          (taken, emptied) = base_take (requests w);
          list = foldl (\<lambda>l (requestId, handlers). l @ [requestId]) list0 taken
      in with_instance (CancelAll_task list) (w\<lparr>requests := emptied\<rparr>))"

text \<open>
  The destructor: its body runs \<open>senderRequestCancelAll\<close>, after which the weak pointers to
  the sender are null.
\<close>

definition destroy :: "world \<Rightarrow> world" where
  "destroy w = (senderRequestCancelAll w)\<lparr>alive := False\<rparr>"

section \<open>The response handlers\<close>

text \<open>
  \<open>response\<close> is the range \<open>[from, end)\<close> seen as bytes, which the handler copies into the
  closure.
\<close>

definition RPCDoneHandler_call :: "mtpRequestId \<Rightarrow> bytes \<Rightarrow> world \<Rightarrow> world" where
  "RPCDoneHandler_call requestId response w = runner (Done_cont requestId response) w"

text \<open>
  \<open>MTP::isDefaultHandledError\<close> and \<open>MTP::isFloodError\<close> belong to the engine and are
  parameters here.
\<close>

definition RPCFailHandler_call ::
  "(RPCError \<Rightarrow> bool) \<Rightarrow> (RPCError \<Rightarrow> bool) \<Rightarrow> FailSkipPolicy \<Rightarrow>
   mtpRequestId \<Rightarrow> RPCError \<Rightarrow> world \<Rightarrow> bool \<times> world" where
  "RPCFailHandler_call isDefaultHandledError isFloodError skipPolicy requestId error w =
     (if skipPolicy = Simple then
        (if isDefaultHandledError error then (False, w)
         else (True, runner (Fail_cont requestId error) w))
      else if skipPolicy = HandleFlood then
        (if isDefaultHandledError error \<and> \<not> isFloodError error then (False, w)
         else (True, runner (Fail_cont requestId error) w))
      else (True, runner (Fail_cont requestId error) w))"

text \<open>Running a closure that was given to the runner: \<open>if (const auto strong = weak.get())\<close>.\<close>

fun run_continuation :: "continuation \<Rightarrow> world \<Rightarrow> exn option \<times> world" where
  "run_continuation (Done_cont requestId moved) w =
     (if alive w then senderRequestDone requestId moved w else (None, w))"
| "run_continuation (Fail_cont requestId error) w =
     (if alive w then senderRequestFail requestId error w else (None, w))"

section \<open>\<open>RequestBuilder\<close>\<close>

definition setToDC :: "int \<Rightarrow> RequestBuilder \<Rightarrow> RequestBuilder" where
  "setToDC dcId b = b\<lparr>builder_dcId := dcId\<rparr>"

definition setCanWait :: "int \<Rightarrow> RequestBuilder \<Rightarrow> RequestBuilder" where
  "setCanWait ms b = b\<lparr>builder_canWait := ms\<rparr>"

definition setFailSkipPolicy :: "FailSkipPolicy \<Rightarrow> RequestBuilder \<Rightarrow> RequestBuilder" where
  "setFailSkipPolicy policy b = b\<lparr>builder_failSkipPolicy := policy\<rparr>"

definition setAfter :: "mtpRequestId \<Rightarrow> RequestBuilder \<Rightarrow> RequestBuilder" where
  "setAfter requestId b = b\<lparr>builder_afterRequestId := requestId\<rparr>"

text \<open>
  The constructor stores the serialized request; the other fields start from the
  initialisers of the header and are changed by the setters above. \<open>send\<close> returns the
  request id; the builder it leaves behind is moved-from.
\<close>

definition send :: "RequestBuilder \<Rightarrow> world \<Rightarrow> mtpRequestId \<times> world" where
  "send b w =
     (let (requestId, w1) = GetNextRequestId w;
          dcId = builder_dcId b;
          msCanWait = builder_canWait b;
          afterRequestId = builder_afterRequestId b;
          w2 = senderRequestRegister requestId (builder_handlers b) w1;
          w3 = with_instance
                 (Send_task requestId (builder_serialized b) (builder_failSkipPolicy b)
                    dcId msCanWait afterRequestId) w2
      in (requestId, w3))"

section \<open>Sequences of calls\<close>

text \<open>
  The terminal operations a caller or a continuation performs on a live sender. An
  exception leaving a callback goes to whoever ran the operation; the state stays as the
  operation left it.
\<close>

datatype operation =
  Op_complete mtpRequestId bytes
| Op_fail mtpRequestId RPCError
| Op_cancel mtpRequestId
| Op_detach mtpRequestId

fun apply_operation :: "operation \<Rightarrow> world \<Rightarrow> world" where
  "apply_operation (Op_complete requestId result) w = snd (senderRequestDone requestId result w)"
| "apply_operation (Op_fail requestId error) w = snd (senderRequestFail requestId error w)"
| "apply_operation (Op_cancel requestId) w = senderRequestCancel requestId w"
| "apply_operation (Op_detach requestId) w = senderRequestDetach requestId w"

fun operation_id :: "operation \<Rightarrow> mtpRequestId" where
  "operation_id (Op_complete requestId result) = requestId"
| "operation_id (Op_fail requestId error) = requestId"
| "operation_id (Op_cancel requestId) = requestId"
| "operation_id (Op_detach requestId) = requestId"

fun run_operations :: "operation list \<Rightarrow> world \<Rightarrow> world" where
  "run_operations [] w = w"
| "run_operations (x # xs) w = run_operations xs (apply_operation x w)"

fun call_id :: "call \<Rightarrow> mtpRequestId" where
  "call_id (Done_call t requestId result) = requestId"
| "call_id (Fail_call t requestId error) = requestId"

fun is_done_call :: "call \<Rightarrow> bool" where
  "is_done_call (Done_call t requestId result) = True"
| "is_done_call (Fail_call t requestId error) = False"

text \<open>The invocations made between two states, and those of them made for one id.\<close>

definition new_calls :: "world \<Rightarrow> world \<Rightarrow> call list" where
  "new_calls w w' = drop (length (calls w)) (calls w')"

definition calls_for :: "mtpRequestId \<Rightarrow> call list \<Rightarrow> call list" where
  "calls_for requestId cs = filter (\<lambda>c. call_id c = requestId) cs"

text \<open>How many operations of a sequence invoke a callback for the id.\<close>

fun invoking_operations :: "mtpRequestId \<Rightarrow> operation list \<Rightarrow> world \<Rightarrow> nat" where
  "invoking_operations requestId [] w = 0"
| "invoking_operations requestId (x # xs) w =
     (if calls_for requestId (new_calls w (apply_operation x w)) = [] then 0 else 1)
     + invoking_operations requestId xs (apply_operation x w)"

text \<open>
  What can happen around a sender without calling its methods directly: the engine
  delivers a response or an error to a handler it was given, the runner runs one of the
  closures it holds (in any order), the main thread runs the next posted closure (with or
  without an instance).
\<close>

datatype event =
  Engine_done mtpRequestId bytes
| Engine_fail FailSkipPolicy mtpRequestId RPCError
| Runner_runs nat
| Main_runs bool

fun step :: "(RPCError \<Rightarrow> bool) \<Rightarrow> (RPCError \<Rightarrow> bool) \<Rightarrow> event \<Rightarrow> world \<Rightarrow> world" where
  "step isDefaultHandledError isFloodError (Engine_done requestId response) w =
     RPCDoneHandler_call requestId response w"
| "step isDefaultHandledError isFloodError (Engine_fail skipPolicy requestId error) w =
     snd (RPCFailHandler_call isDefaultHandledError isFloodError skipPolicy requestId error w)"
| "step isDefaultHandledError isFloodError (Runner_runs n) w =
     (if n < length (runner_queue w)
      then snd (run_continuation (runner_queue w ! n)
                  (w\<lparr>runner_queue := take n (runner_queue w) @ drop (Suc n) (runner_queue w)\<rparr>))
      else w)"
| "step isDefaultHandledError isFloodError (Main_runs instance) w =
     (case main_queue w of
        [] \<Rightarrow> w
      | t # ts \<Rightarrow> run_main_task instance t (w\<lparr>main_queue := ts\<rparr>))"

fun run_events ::
  "(RPCError \<Rightarrow> bool) \<Rightarrow> (RPCError \<Rightarrow> bool) \<Rightarrow> event list \<Rightarrow> world \<Rightarrow> world" where
  "run_events isDefaultHandledError isFloodError [] w = w"
| "run_events isDefaultHandledError isFloodError (e # es) w =
     run_events isDefaultHandledError isFloodError es
       (step isDefaultHandledError isFloodError e w)"

section \<open>Example states\<close>

text \<open>
  A pair of callbacks that return, a pair whose done callback throws an \<open>Exception\<close>, a
  live sender with given pending requests and nothing queued, and one classification of
  errors an engine could use.
\<close>

definition quiet_handlers :: "nat \<Rightarrow> Handlers" where
  "quiet_handlers t =
     \<lparr>handlers_tag = t, done_handler = (\<lambda>requestId result. None),
      fail_handler = (\<lambda>requestId error. None)\<rparr>"

definition throwing_handlers :: "nat \<Rightarrow> string \<Rightarrow> Handlers" where
  "throwing_handlers t what =
     \<lparr>handlers_tag = t, done_handler = (\<lambda>requestId result. Some (Exception what)),
      fail_handler = (\<lambda>requestId error. None)\<rparr>"

definition idle_world :: "(mtpRequestId \<times> Handlers) list \<Rightarrow> world" where
  "idle_world m =
     \<lparr>alive = True, requests = m, runner_queue = [], main_queue = [],
      engine_calls = [], calls = [], last_request_id = 100\<rparr>"

definition sample_isFloodError :: "RPCError \<Rightarrow> bool" where
  "sample_isFloodError error = (error_type error = ''FLOOD_WAIT_5'')"

definition sample_isDefaultHandledError :: "RPCError \<Rightarrow> bool" where
  "sample_isDefaultHandledError error =
     (sample_isFloodError error \<or> error_type error = ''INTERNAL'')"

definition sample_builder :: RequestBuilder where
  "sample_builder =
     \<lparr>builder_serialized = [1, 2], builder_dcId = 2, builder_canWait = 0,
      builder_failSkipPolicy = Simple, builder_afterRequestId = 0,
      builder_handlers = quiet_handlers 8\<rparr>"

section \<open>Facts about the container\<close>

lemma flat_map_inv_distinct: "flat_map_inv m \<Longrightarrow> distinct (map fst m)"
  unfolding flat_map_inv_def by (simp add: strict_sorted_iff)

lemma flat_map_inv_Cons:
  "flat_map_inv ((k, v) # m) \<longleftrightarrow> (\<forall>k' \<in> fst ` set m. k < k') \<and> flat_map_inv m"
  unfolding flat_map_inv_def by auto

lemma set_flat_map_emplace:
  "fst ` set (flat_map_emplace k v m) = insert k (fst ` set m)"
  by (induction k v m rule: flat_map_emplace.induct) auto

lemma flat_map_emplace_inv: "flat_map_inv m \<Longrightarrow> flat_map_inv (flat_map_emplace k v m)"
proof (induction m)
  case Nil
  then show ?case by (simp add: flat_map_inv_def)
next
  case (Cons a m)
  obtain k' v' where a: "a = (k', v')" by (cases a)
  from Cons show ?case
    unfolding a by (auto simp: flat_map_inv_Cons set_flat_map_emplace)
qed

lemma set_flat_map_erase: "set (flat_map_erase k m) \<subseteq> set m"
  by (induction k m rule: flat_map_erase.induct) auto

lemma flat_map_erase_inv: "flat_map_inv m \<Longrightarrow> flat_map_inv (flat_map_erase k m)"
proof (induction m)
  case Nil
  then show ?case by simp
next
  case (Cons a m)
  obtain k' v' where a: "a = (k', v')" by (cases a)
  from Cons set_flat_map_erase [of k m] show ?case
    unfolding a by (auto simp: flat_map_inv_Cons)
qed

lemma map_of_flat_map_erase_same:
  "flat_map_inv m \<Longrightarrow> map_of (flat_map_erase k m) k = None"
proof (induction m)
  case Nil
  then show ?case by simp
next
  case (Cons a m)
  obtain k' v' where a: "a = (k', v')" by (cases a)
  from Cons show ?case
    unfolding a by (force simp: flat_map_inv_Cons map_of_eq_None_iff)
qed

lemma map_of_flat_map_erase_other:
  "k' \<noteq> k \<Longrightarrow> map_of (flat_map_erase k m) k' = map_of m k'"
  by (induction k m rule: flat_map_erase.induct) auto

lemma flat_map_erase_absent: "map_of m k = None \<Longrightarrow> flat_map_erase k m = m"
  by (induction k m rule: flat_map_erase.induct) (auto split: if_splits)

lemma flat_map_emplace_present:
  "flat_map_inv m \<Longrightarrow> map_of m k = Some v' \<Longrightarrow> flat_map_emplace k v m = m"
proof (induction m)
  case Nil
  then show ?case by simp
next
  case (Cons a m)
  obtain k1 v1 where a: "a = (k1, v1)" by (cases a)
  from Cons show ?case
    unfolding a by (force simp: flat_map_inv_Cons split: if_splits dest: map_of_SomeD)
qed

lemma map_of_flat_map_emplace_absent:
  "map_of m k = None \<Longrightarrow> map_of (flat_map_emplace k v m) = (map_of m)(k \<mapsto> v)"
  by (induction k v m rule: flat_map_emplace.induct) (auto split: if_splits)

lemma map_of_flat_map_emplace_same: "map_of (flat_map_emplace k v m) k \<noteq> None"
  by (induction k v m rule: flat_map_emplace.induct) auto

section \<open>Cancelling every request\<close>

lemma senderRequestCancelAll_foldl:
  "foldl (\<lambda>l (requestId, handlers). l @ [requestId]) l0 m = l0 @ map fst m"
  by (induction m arbitrary: l0) (auto simp: case_prod_beta)

lemma senderRequestCancelAll_eq:
  "senderRequestCancelAll w =
     w\<lparr>requests := [],
       main_queue := main_queue w @
         [CancelAll_task (replicate (length (requests w)) 0 @ map fst (requests w))]\<rparr>"
  by (simp add: senderRequestCancelAll_def base_take_def flat_map_size_def
      with_instance_def senderRequestCancelAll_foldl)

text \<open>
  Claim C1 (cancelAll issues exactly one remote cancel per pending id and no others). With
  the single request 7 pending, \<open>senderRequestCancelAll\<close> clears the mapping and posts one
  closure whose list is \<open>[0, 7]\<close>: the vector was created with one value-initialised
  element and the id was appended to it. Run with an instance, the closure makes two
  calls of \<open>cancel\<close>, one of them for the id 0, which was never pending.
\<close>

theorem senderRequestCancelAll_one_pending:
  "requests (senderRequestCancelAll (idle_world [(7, quiet_handlers 1)])) = []
   \<and> main_queue (senderRequestCancelAll (idle_world [(7, quiet_handlers 1)]))
       = [CancelAll_task [0, 7]]
   \<and> engine_calls
        (step sample_isDefaultHandledError sample_isFloodError (Main_runs True)
           (senderRequestCancelAll (idle_world [(7, quiet_handlers 1)])))
       = [Engine_cancel 0, Engine_cancel 7]"
  by (simp add: senderRequestCancelAll_def base_take_def flat_map_size_def
      with_instance_def idle_world_def)

section \<open>The fail handler's policy\<close>

text \<open>
  Claim C5 (under the policy \<open>Simple\<close> a generically handled error is swallowed). The
  handler returns \<open>false\<close> and leaves the whole state as it was: nothing is given to the
  runner, no callback is invoked and the mapping still holds every entry it held.
\<close>

theorem RPCFailHandler_Simple_swallows:
  "isDefaultHandledError error \<Longrightarrow>
   RPCFailHandler_call isDefaultHandledError isFloodError Simple requestId error w = (False, w)"
  by (simp add: RPCFailHandler_call_def)

theorem RPCFailHandler_Simple_swallows_witness:
  "sample_isDefaultHandledError (rpcClientError ''INTERNAL'' ''x'')
   \<and> RPCFailHandler_call sample_isDefaultHandledError sample_isFloodError Simple 2
       (rpcClientError ''INTERNAL'' ''x'') (idle_world [(2, quiet_handlers 1)])
     = (False, idle_world [(2, quiet_handlers 1)])"
proof -
  have h: "sample_isDefaultHandledError (rpcClientError ''INTERNAL'' ''x'')"
    by (simp add: sample_isDefaultHandledError_def rpcClientError_def)
  from h RPCFailHandler_Simple_swallows
    [where isDefaultHandledError = sample_isDefaultHandledError
       and error = "rpcClientError ''INTERNAL'' ''x''", OF h]
  show ?thesis by simp
qed

text \<open>
  Claim C4 (under the policy \<open>HandleFlood\<close> a flood error is escalated). Whatever the
  engine's generic classification of it, the handler gives the runner the closure for
  \<open>(requestId, error)\<close> and returns \<open>true\<close>; run on a live sender that still holds the
  request, the closure invokes the fail callback of its pair with that id and error.
\<close>

theorem RPCFailHandler_HandleFlood_escalates:
  "isFloodError error \<Longrightarrow>
   RPCFailHandler_call isDefaultHandledError isFloodError HandleFlood requestId error w
     = (True, w\<lparr>runner_queue := runner_queue w @ [Fail_cont requestId error]\<rparr>)
   \<and> (alive w \<and> map_of (requests w) requestId = Some handlers \<longrightarrow>
        calls (snd (run_continuation (Fail_cont requestId error)
                 (snd (RPCFailHandler_call isDefaultHandledError isFloodError HandleFlood
                         requestId error w))))
          = calls w @ [Fail_call (handlers_tag handlers) requestId error])"
  by (simp add: RPCFailHandler_call_def runner_def senderRequestFail_def flat_map_take_def)

theorem RPCFailHandler_HandleFlood_escalates_witness:
  "sample_isFloodError (rpcClientError ''FLOOD_WAIT_5'' ''x'')
   \<and> sample_isDefaultHandledError (rpcClientError ''FLOOD_WAIT_5'' ''x'')
   \<and> fst (RPCFailHandler_call sample_isDefaultHandledError sample_isFloodError HandleFlood 3
         (rpcClientError ''FLOOD_WAIT_5'' ''x'') (idle_world [(3, quiet_handlers 1)]))
   \<and> calls (snd (run_continuation (Fail_cont 3 (rpcClientError ''FLOOD_WAIT_5'' ''x''))
         (snd (RPCFailHandler_call sample_isDefaultHandledError sample_isFloodError
                 HandleFlood 3 (rpcClientError ''FLOOD_WAIT_5'' ''x'')
                 (idle_world [(3, quiet_handlers 1)])))))
       = [Fail_call 1 3 (rpcClientError ''FLOOD_WAIT_5'' ''x'')]"
proof -
  have h: "sample_isFloodError (rpcClientError ''FLOOD_WAIT_5'' ''x'')"
    by (simp add: sample_isFloodError_def rpcClientError_def)
  have a: "alive (idle_world [(3, quiet_handlers 1)])
           \<and> map_of (requests (idle_world [(3, quiet_handlers 1)])) 3 = Some (quiet_handlers 1)"
    by (simp add: idle_world_def)
  have b: "calls (idle_world [(3, quiet_handlers 1)]) = []"
    "handlers_tag (quiet_handlers 1) = 1"
    "sample_isDefaultHandledError (rpcClientError ''FLOOD_WAIT_5'' ''x'')"
    by (simp_all add: idle_world_def quiet_handlers_def sample_isDefaultHandledError_def h)
  note t = RPCFailHandler_HandleFlood_escalates
    [where isFloodError = sample_isFloodError
       and isDefaultHandledError = sample_isDefaultHandledError
       and error = "rpcClientError ''FLOOD_WAIT_5'' ''x''"
       and w = "idle_world [(3, quiet_handlers 1)]" and requestId = 3
       and handlers = "quiet_handlers 1", OF h]
  from t have t1:
    "RPCFailHandler_call sample_isDefaultHandledError sample_isFloodError HandleFlood 3
       (rpcClientError ''FLOOD_WAIT_5'' ''x'') (idle_world [(3, quiet_handlers 1)])
     = (True, idle_world [(3, quiet_handlers 1)]
          \<lparr>runner_queue := runner_queue (idle_world [(3, quiet_handlers 1)]) @
             [Fail_cont 3 (rpcClientError ''FLOOD_WAIT_5'' ''x'')]\<rparr>)"
    by (rule conjunct1)
  from t a have t2:
    "calls (snd (run_continuation (Fail_cont 3 (rpcClientError ''FLOOD_WAIT_5'' ''x''))
         (snd (RPCFailHandler_call sample_isDefaultHandledError sample_isFloodError
                 HandleFlood 3 (rpcClientError ''FLOOD_WAIT_5'' ''x'')
                 (idle_world [(3, quiet_handlers 1)])))))
     = calls (idle_world [(3, quiet_handlers 1)])
       @ [Fail_call (handlers_tag (quiet_handlers 1)) 3 (rpcClientError ''FLOOD_WAIT_5'' ''x'')]"
    by blast
  show ?thesis
  proof (intro conjI)
    show "sample_isFloodError (rpcClientError ''FLOOD_WAIT_5'' ''x'')" by (rule h)
    show "sample_isDefaultHandledError (rpcClientError ''FLOOD_WAIT_5'' ''x'')" by (rule b(3))
    show "fst (RPCFailHandler_call sample_isDefaultHandledError sample_isFloodError HandleFlood 3
         (rpcClientError ''FLOOD_WAIT_5'' ''x'') (idle_world [(3, quiet_handlers 1)]))"
      by (simp only: t1 fst_conv)
    show "calls (snd (run_continuation (Fail_cont 3 (rpcClientError ''FLOOD_WAIT_5'' ''x''))
         (snd (RPCFailHandler_call sample_isDefaultHandledError sample_isFloodError
                 HandleFlood 3 (rpcClientError ''FLOOD_WAIT_5'' ''x'')
                 (idle_world [(3, quiet_handlers 1)])))))
       = [Fail_call 1 3 (rpcClientError ''FLOOD_WAIT_5'' ''x'')]"
      by (simp only: t2 b append_Nil)
  qed
qed

section \<open>Completion and failure\<close>

lemma flat_map_take_present:
  "map_of m k = Some v \<Longrightarrow> flat_map_take k m = (Some v, flat_map_erase k m)"
  by (simp add: flat_map_take_def)

lemma flat_map_take_absent: "map_of m k = None \<Longrightarrow> flat_map_take k m = (None, m)"
  by (simp add: flat_map_take_def)

lemma map_of_flat_map_erase_None:
  "map_of m k = None \<Longrightarrow> map_of (flat_map_erase k' m) k = None"
  by (cases "k = k'") (simp_all add: flat_map_erase_absent map_of_flat_map_erase_other)

lemma senderRequestDone_absent:
  "map_of (requests w) k = None \<Longrightarrow> senderRequestDone k result w = (None, w)"
  by (simp add: senderRequestDone_def flat_map_take_absent)

lemma senderRequestFail_absent:
  "map_of (requests w) k = None \<Longrightarrow> senderRequestFail k error w = (None, w)"
  by (simp add: senderRequestFail_def flat_map_take_absent)

lemma senderRequestDone_present:
  "map_of (requests w) k = Some h \<Longrightarrow>
   requests (snd (senderRequestDone k result w)) = flat_map_erase k (requests w)
   \<and> (\<exists>cs. calls (snd (senderRequestDone k result w)) = calls w @ Done_call (handlers_tag h) k result # cs
         \<and> (cs = [] \<or> (\<exists>e. cs = [Fail_call (handlers_tag h) k e])))"
  by (auto simp: senderRequestDone_def flat_map_take_present Let_def
      split: option.splits exn.splits)

lemma senderRequestFail_present:
  "map_of (requests w) k = Some h \<Longrightarrow>
   requests (snd (senderRequestFail k error w)) = flat_map_erase k (requests w)
   \<and> calls (snd (senderRequestFail k error w)) = calls w @ [Fail_call (handlers_tag h) k error]"
  by (simp add: senderRequestFail_def flat_map_take_present)

text \<open>
  Claim C3 (a parse failure of the done callback is redirected to the fail callback). When
  the done callback of a pending request throws an \<open>Exception\<close>, \<open>senderRequestDone\<close>
  invokes the fail callback of the same pair with the client error built from
  \<open>RESPONSE_PARSE_FAILED\<close> and the exception's text; the exception of the done callback
  does not leave the function (what leaves it is what the fail callback throws, if
  anything), and the entry is removed.
\<close>

theorem senderRequestDone_parse_failed:
  "map_of (requests w) requestId = Some handlers \<Longrightarrow>
   done_handler handlers requestId result = Some (Exception what) \<Longrightarrow>
   senderRequestDone requestId result w =
     (fail_handler handlers requestId
        (rpcClientError ''RESPONSE_PARSE_FAILED'' (''exception text: '' @ what)),
      w\<lparr>requests := flat_map_erase requestId (requests w),
        calls := calls w @
          [Done_call (handlers_tag handlers) requestId result,
           Fail_call (handlers_tag handlers) requestId
             (rpcClientError ''RESPONSE_PARSE_FAILED'' (''exception text: '' @ what))]\<rparr>)
   \<and> error_type (rpcClientError ''RESPONSE_PARSE_FAILED'' (''exception text: '' @ what))
       = ''RESPONSE_PARSE_FAILED''
   \<and> error_description (rpcClientError ''RESPONSE_PARSE_FAILED'' (''exception text: '' @ what))
       = ''exception text: '' @ what"
  by (simp add: senderRequestDone_def flat_map_take_present Let_def rpcClientError_def)

theorem senderRequestDone_parse_failed_witness:
  "map_of (requests (idle_world [(4, throwing_handlers 9 ''bad'')])) 4
     = Some (throwing_handlers 9 ''bad'')
   \<and> done_handler (throwing_handlers 9 ''bad'') 4 [1, 2] = Some (Exception ''bad'')
   \<and> fst (senderRequestDone 4 [1, 2] (idle_world [(4, throwing_handlers 9 ''bad'')])) = None
   \<and> calls (snd (senderRequestDone 4 [1, 2] (idle_world [(4, throwing_handlers 9 ''bad'')])))
       = [Done_call 9 4 [1, 2],
          Fail_call 9 4 (rpcClientError ''RESPONSE_PARSE_FAILED'' ''exception text: bad'')]"
proof -
  have h1: "map_of (requests (idle_world [(4, throwing_handlers 9 ''bad'')])) 4
              = Some (throwing_handlers 9 ''bad'')"
    by (simp add: idle_world_def)
  have h2: "done_handler (throwing_handlers 9 ''bad'') 4 [1, 2] = Some (Exception ''bad'')"
    by (simp add: throwing_handlers_def)
  have b: "fail_handler (throwing_handlers 9 ''bad'') = (\<lambda>requestId error. None)"
    "handlers_tag (throwing_handlers 9 ''bad'') = 9"
    "calls (idle_world [(4, throwing_handlers 9 ''bad'')]) = []"
    "''exception text: '' @ ''bad'' = ''exception text: bad''"
    by (simp_all add: throwing_handlers_def idle_world_def)
  note t = senderRequestDone_parse_failed [OF h1 h2, THEN conjunct1]
  show ?thesis
  proof (intro conjI)
    show "map_of (requests (idle_world [(4, throwing_handlers 9 ''bad'')])) 4
            = Some (throwing_handlers 9 ''bad'')" by (rule h1)
    show "done_handler (throwing_handlers 9 ''bad'') 4 [1, 2] = Some (Exception ''bad'')"
      by (rule h2)
    show "fst (senderRequestDone 4 [1, 2] (idle_world [(4, throwing_handlers 9 ''bad'')])) = None"
      by (simp only: t fst_conv b)
    show "calls (snd (senderRequestDone 4 [1, 2] (idle_world [(4, throwing_handlers 9 ''bad'')])))
       = [Done_call 9 4 [1, 2],
          Fail_call 9 4 (rpcClientError ''RESPONSE_PARSE_FAILED'' ''exception text: bad'')]"
      by (simp add: t b del: append.simps)
  qed
qed

text \<open>
  Claim C6 (completion of a registered id, completion and failure of an absent id). For a
  pending id, \<open>senderRequestDone\<close> invokes the done callback of its entry exactly once, with
  that id and those bytes, and the id is absent afterwards; for an id that is not
  pending, \<open>senderRequestDone\<close> and \<open>senderRequestFail\<close> change nothing, invoke nothing and
  throw nothing.
\<close>

theorem senderRequestDone_registered_or_absent:
  "flat_map_inv (requests w) \<Longrightarrow>
   (map_of (requests w) requestId = Some handlers \<longrightarrow>
      filter is_done_call (new_calls w (snd (senderRequestDone requestId result w)))
        = [Done_call (handlers_tag handlers) requestId result]
      \<and> map_of (requests (snd (senderRequestDone requestId result w))) requestId = None)
   \<and> (map_of (requests w) requestId = None \<longrightarrow>
      senderRequestDone requestId result w = (None, w)
      \<and> senderRequestFail requestId error w = (None, w))"
  by (auto simp: senderRequestDone_def senderRequestFail_def flat_map_take_present
      flat_map_take_absent new_calls_def map_of_flat_map_erase_same Let_def
      split: option.splits exn.splits)

theorem senderRequestDone_registered_or_absent_witness:
  "flat_map_inv (requests (idle_world [(1, quiet_handlers 5)]))
   \<and> map_of (requests (idle_world [(1, quiet_handlers 5)])) 1 = Some (quiet_handlers 5)
   \<and> filter is_done_call (new_calls (idle_world [(1, quiet_handlers 5)])
         (snd (senderRequestDone 1 [79, 75] (idle_world [(1, quiet_handlers 5)]))))
       = [Done_call 5 1 [79, 75]]
   \<and> map_of (requests (snd (senderRequestDone 1 [79, 75] (idle_world [(1, quiet_handlers 5)])))) 1
       = None
   \<and> map_of (requests (idle_world [(1, quiet_handlers 5)])) 2 = None
   \<and> senderRequestDone 2 [79, 75] (idle_world [(1, quiet_handlers 5)])
       = (None, idle_world [(1, quiet_handlers 5)])
   \<and> senderRequestFail 2 (rpcClientError ''E'' ''d'') (idle_world [(1, quiet_handlers 5)])
       = (None, idle_world [(1, quiet_handlers 5)])"
proof -
  let ?W = "idle_world [(1, quiet_handlers 5)]"
  have i: "flat_map_inv (requests ?W)" by (simp add: idle_world_def flat_map_inv_def)
  have p: "map_of (requests ?W) 1 = Some (quiet_handlers 5)" by (simp add: idle_world_def)
  have a: "map_of (requests ?W) 2 = None" by (simp add: idle_world_def)
  have t: "handlers_tag (quiet_handlers 5) = 5" by (simp add: quiet_handlers_def)
  note r = senderRequestDone_registered_or_absent
    [where w = ?W and requestId = 1 and handlers = "quiet_handlers 5" and result = "[79, 75]",
      OF i, THEN conjunct1, rule_format, OF p]
  note n = senderRequestDone_registered_or_absent
    [where w = ?W and requestId = 2 and result = "[79, 75]"
       and error = "rpcClientError ''E'' ''d''",
      OF i, THEN conjunct2, rule_format, OF a]
  from i p a r n t show ?thesis by simp
qed

section \<open>Cancelling one request\<close>

text \<open>
  Claim C8 (cancel removes the entry silently and notifies the engine once). No callback
  is invoked, every other entry is as before, the id is absent afterwards, one closure
  for the id is posted to the main thread, which calls \<open>cancel\<close> for that id when run with
  an instance; for an id that is not pending the mapping is unchanged.
\<close>

theorem senderRequestCancel_frame:
  "calls (senderRequestCancel requestId w) = calls w
   \<and> (\<forall>k. k \<noteq> requestId \<longrightarrow>
         map_of (requests (senderRequestCancel requestId w)) k = map_of (requests w) k)
   \<and> (flat_map_inv (requests w) \<longrightarrow>
         map_of (requests (senderRequestCancel requestId w)) requestId = None)
   \<and> (map_of (requests w) requestId = None \<longrightarrow>
         requests (senderRequestCancel requestId w) = requests w)
   \<and> main_queue (senderRequestCancel requestId w) = main_queue w @ [Cancel_task requestId]
   \<and> runner_queue (senderRequestCancel requestId w) = runner_queue w
   \<and> engine_calls (senderRequestCancel requestId w) = engine_calls w
   \<and> engine_calls (run_main_task True (Cancel_task requestId)
                      (senderRequestCancel requestId w))
       = engine_calls w @ [Engine_cancel requestId]"
  by (simp add: senderRequestCancel_def senderRequestDetach_def with_instance_def
      map_of_flat_map_erase_same map_of_flat_map_erase_other flat_map_erase_absent)

theorem senderRequestCancel_frame_witness:
  "flat_map_inv (requests (idle_world [(1, quiet_handlers 1), (2, quiet_handlers 2)]))
   \<and> (2 :: mtpRequestId) \<noteq> 1
   \<and> calls (senderRequestCancel 1 (idle_world [(1, quiet_handlers 1), (2, quiet_handlers 2)]))
       = calls (idle_world [(1, quiet_handlers 1), (2, quiet_handlers 2)])
   \<and> map_of (requests (senderRequestCancel 1
         (idle_world [(1, quiet_handlers 1), (2, quiet_handlers 2)]))) 2
       = map_of (requests (idle_world [(1, quiet_handlers 1), (2, quiet_handlers 2)])) 2
   \<and> map_of (requests (senderRequestCancel 1
         (idle_world [(1, quiet_handlers 1), (2, quiet_handlers 2)]))) 1 = None
   \<and> main_queue (senderRequestCancel 1 (idle_world [(1, quiet_handlers 1), (2, quiet_handlers 2)]))
       = main_queue (idle_world [(1, quiet_handlers 1), (2, quiet_handlers 2)]) @ [Cancel_task 1]
   \<and> map_of (requests (idle_world [(1, quiet_handlers 1), (2, quiet_handlers 2)])) 7 = None
   \<and> requests (senderRequestCancel 7 (idle_world [(1, quiet_handlers 1), (2, quiet_handlers 2)]))
       = requests (idle_world [(1, quiet_handlers 1), (2, quiet_handlers 2)])"
proof -
  let ?W = "idle_world [(1, quiet_handlers 1), (2, quiet_handlers 2)]"
  have i: "flat_map_inv (requests ?W)" by (simp add: idle_world_def flat_map_inv_def)
  have d: "(2 :: mtpRequestId) \<noteq> 1" by simp
  have a: "map_of (requests ?W) 7 = None" by (simp add: idle_world_def)
  note t1 = senderRequestCancel_frame [where w = ?W and requestId = 1]
  note t7 = senderRequestCancel_frame [where w = ?W and requestId = 7]
  from t1 have c1: "calls (senderRequestCancel 1 ?W) = calls ?W" by blast
  from t1 d have c2: "map_of (requests (senderRequestCancel 1 ?W)) 2 = map_of (requests ?W) 2"
    by blast
  from t1 i have c3: "map_of (requests (senderRequestCancel 1 ?W)) 1 = None" by blast
  from t1 have c4: "main_queue (senderRequestCancel 1 ?W) = main_queue ?W @ [Cancel_task 1]"
    by blast
  from t7 a have c5: "requests (senderRequestCancel 7 ?W) = requests ?W" by blast
  from i d a c1 c2 c3 c4 c5 show ?thesis by blast
qed

section \<open>Registering a request\<close>

text \<open>
  Claim C10 (registering an id that is already pending). The state is unchanged: the
  entry keeps the pair it had, the new pair is neither stored nor invoked, and the
  mapping still has one entry per id.
\<close>

theorem senderRequestRegister_present:
  "flat_map_inv (requests w) \<Longrightarrow>
   map_of (requests w) requestId = Some handlers \<Longrightarrow>
   senderRequestRegister requestId handlers' w = w
   \<and> map_of (requests (senderRequestRegister requestId handlers' w)) requestId = Some handlers
   \<and> flat_map_inv (requests (senderRequestRegister requestId handlers' w))
   \<and> distinct (map fst (requests (senderRequestRegister requestId handlers' w)))"
  by (simp add: senderRequestRegister_def flat_map_emplace_present flat_map_inv_distinct)

theorem senderRequestRegister_present_witness:
  "flat_map_inv (requests (idle_world [(1, quiet_handlers 5)]))
   \<and> map_of (requests (idle_world [(1, quiet_handlers 5)])) 1 = Some (quiet_handlers 5)
   \<and> senderRequestRegister 1 (throwing_handlers 6 ''x'') (idle_world [(1, quiet_handlers 5)])
       = idle_world [(1, quiet_handlers 5)]
   \<and> map_of (requests (senderRequestRegister 1 (throwing_handlers 6 ''x'')
         (idle_world [(1, quiet_handlers 5)]))) 1 = Some (quiet_handlers 5)"
proof -
  let ?W = "idle_world [(1, quiet_handlers 5)]"
  have i: "flat_map_inv (requests ?W)" by (simp add: idle_world_def flat_map_inv_def)
  have p: "map_of (requests ?W) 1 = Some (quiet_handlers 5)" by (simp add: idle_world_def)
  note t = senderRequestRegister_present
    [where w = ?W and requestId = 1 and handlers = "quiet_handlers 5"
       and handlers' = "throwing_handlers 6 ''x''", OF i p]
  from i p t show ?thesis by blast
qed

section \<open>At most one terminal operation per request\<close>

text \<open>What one operation does to the mapping and to the record of invocations.\<close>

lemma apply_operation_effect:
  "\<exists>k cs. requests (apply_operation x w) = flat_map_erase k (requests w)
     \<and> calls (apply_operation x w) = calls w @ cs
     \<and> (cs = [] \<or> map_of (requests w) k \<noteq> None)
     \<and> (\<forall>c \<in> set cs. call_id c = k)
     \<and> length (filter is_done_call cs) \<le> 1
     \<and> length (filter (\<lambda>c. \<not> is_done_call c) cs) \<le> 1"
proof (cases x)
  case (Op_complete k result)
  show ?thesis
  proof (cases "map_of (requests w) k")
    case None
    then show ?thesis unfolding Op_complete
      by (intro exI [of _ k] exI [of _ "[]"])
        (simp add: senderRequestDone_absent flat_map_erase_absent)
  next
    case (Some h)
    from senderRequestDone_present [OF Some, of result] obtain cs where
      cs: "calls (snd (senderRequestDone k result w)) = calls w @ Done_call (handlers_tag h) k result # cs"
      "cs = [] \<or> (\<exists>e. cs = [Fail_call (handlers_tag h) k e])"
      and r: "requests (snd (senderRequestDone k result w)) = flat_map_erase k (requests w)"
      by blast
    show ?thesis unfolding Op_complete
      using cs r Some
      by (intro exI [of _ k] exI [of _ "Done_call (handlers_tag h) k result # cs"]) auto
  qed
next
  case (Op_fail k error)
  show ?thesis
  proof (cases "map_of (requests w) k")
    case None
    then show ?thesis unfolding Op_fail
      by (intro exI [of _ k] exI [of _ "[]"])
        (simp add: senderRequestFail_absent flat_map_erase_absent)
  next
    case (Some h)
    from senderRequestFail_present [OF Some, of error] Some show ?thesis unfolding Op_fail
      by (intro exI [of _ k] exI [of _ "[Fail_call (handlers_tag h) k error]"]) simp
  qed
next
  case (Op_cancel k)
  then show ?thesis
    by (intro exI [of _ k] exI [of _ "[]"])
      (simp add: senderRequestCancel_def senderRequestDetach_def with_instance_def)
next
  case (Op_detach k)
  then show ?thesis
    by (intro exI [of _ k] exI [of _ "[]"]) (simp add: senderRequestDetach_def)
qed

lemma apply_operation_inv:
  "flat_map_inv (requests w) \<Longrightarrow> flat_map_inv (requests (apply_operation x w))"
  using apply_operation_effect [of x w] by (auto simp: flat_map_erase_inv)

lemma apply_operation_calls: "\<exists>cs. calls (apply_operation x w) = calls w @ cs"
  using apply_operation_effect [of x w] by blast

lemma apply_operation_absent:
  assumes "map_of (requests w) k = None"
  shows "calls_for k (new_calls w (apply_operation x w)) = []"
    and "map_of (requests (apply_operation x w)) k = None"
proof -
  from apply_operation_effect [of x w] obtain k' cs where
    e: "requests (apply_operation x w) = flat_map_erase k' (requests w)"
    "calls (apply_operation x w) = calls w @ cs"
    "cs = [] \<or> map_of (requests w) k' \<noteq> None"
    "\<forall>c \<in> set cs. call_id c = k'"
    by blast
  from e assms show "calls_for k (new_calls w (apply_operation x w)) = []"
    by (auto simp: new_calls_def calls_for_def filter_empty_conv)
  from e assms show "map_of (requests (apply_operation x w)) k = None"
    by (simp add: map_of_flat_map_erase_None)
qed

lemma apply_operation_removes:
  assumes "flat_map_inv (requests w)"
    and "calls_for k (new_calls w (apply_operation x w)) \<noteq> []"
  shows "map_of (requests (apply_operation x w)) k = None"
proof -
  from apply_operation_effect [of x w] obtain k' cs where
    e: "requests (apply_operation x w) = flat_map_erase k' (requests w)"
    "calls (apply_operation x w) = calls w @ cs"
    "\<forall>c \<in> set cs. call_id c = k'"
    by blast
  from e assms(2) have "k' = k"
    by (auto simp: new_calls_def calls_for_def filter_empty_conv)
  with e assms(1) show ?thesis by (simp add: map_of_flat_map_erase_same)
qed

lemma apply_operation_counts:
  "length (filter is_done_call (calls_for k (new_calls w (apply_operation x w)))) \<le> 1
   \<and> length (filter (\<lambda>c. \<not> is_done_call c) (calls_for k (new_calls w (apply_operation x w)))) \<le> 1"
proof -
  from apply_operation_effect [of x w] obtain k' cs where
    e: "calls (apply_operation x w) = calls w @ cs"
    "\<forall>c \<in> set cs. call_id c = k'"
    "length (filter is_done_call cs) \<le> 1"
    "length (filter (\<lambda>c. \<not> is_done_call c) cs) \<le> 1"
    by blast
  have n: "new_calls w (apply_operation x w) = cs" using e(1) by (simp add: new_calls_def)
  show ?thesis
  proof (cases "k' = k")
    case True
    with e(2) have "calls_for k cs = cs" by (simp add: calls_for_def)
    with e n show ?thesis by simp
  next
    case False
    with e(2) have "calls_for k cs = []" by (auto simp: calls_for_def filter_empty_conv)
    with n show ?thesis by simp
  qed
qed

lemma run_operations_calls: "\<exists>cs. calls (run_operations xs w) = calls w @ cs"
proof (induction xs arbitrary: w)
  case Nil
  show ?case by simp
next
  case (Cons x xs)
  from apply_operation_calls [of x w] obtain cs1 where
    1: "calls (apply_operation x w) = calls w @ cs1" by blast
  from Cons [of "apply_operation x w"] obtain cs2 where
    2: "calls (run_operations xs (apply_operation x w)) = calls (apply_operation x w) @ cs2"
    by blast
  from 1 2 show ?case by simp
qed

lemma new_calls_step:
  "new_calls w (run_operations xs (apply_operation x w)) =
     new_calls w (apply_operation x w)
     @ new_calls (apply_operation x w) (run_operations xs (apply_operation x w))"
proof -
  from apply_operation_calls [of x w] obtain cs1 where
    1: "calls (apply_operation x w) = calls w @ cs1" by blast
  from run_operations_calls [of xs "apply_operation x w"] obtain cs2 where
    2: "calls (run_operations xs (apply_operation x w)) = calls (apply_operation x w) @ cs2"
    by blast
  from 1 2 show ?thesis by (simp add: new_calls_def)
qed

lemma run_operations_absent:
  "map_of (requests w) k = None \<Longrightarrow>
   calls_for k (new_calls w (run_operations xs w)) = [] \<and> invoking_operations k xs w = 0"
proof (induction xs arbitrary: w)
  case Nil
  show ?case by (simp add: new_calls_def calls_for_def)
next
  case (Cons x xs)
  from apply_operation_absent [OF Cons.prems, of x]
  have a: "calls_for k (new_calls w (apply_operation x w)) = []"
    and b: "map_of (requests (apply_operation x w)) k = None" by blast+
  have c: "calls_for k (new_calls w (run_operations xs (apply_operation x w))) =
     calls_for k (new_calls w (apply_operation x w))
     @ calls_for k (new_calls (apply_operation x w) (run_operations xs (apply_operation x w)))"
    by (subst new_calls_step) (simp add: calls_for_def)
  from Cons.IH [OF b] a c show ?case by simp
qed

lemma calls_for_step:
  "calls_for k (new_calls w (run_operations xs (apply_operation x w))) =
     calls_for k (new_calls w (apply_operation x w))
     @ calls_for k (new_calls (apply_operation x w) (run_operations xs (apply_operation x w)))"
  by (subst new_calls_step) (simp add: calls_for_def)

text \<open>
  Claim C2 as stated (the pair is invoked at most once in total) fails: when the done
  callback throws an \<open>Exception\<close>, one \<open>senderRequestDone\<close> invokes both callbacks of the
  pair.
\<close>

theorem handlers_invoked_twice:
  "calls (run_operations [Op_complete 1 []] (idle_world [(1, throwing_handlers 3 ''bad'')]))
     = [Done_call 3 1 [],
        Fail_call 3 1 (rpcClientError ''RESPONSE_PARSE_FAILED'' ''exception text: bad'')]
   \<and> \<not> length (calls_for 1 (new_calls (idle_world [(1, throwing_handlers 3 ''bad'')])
           (run_operations [Op_complete 1 []] (idle_world [(1, throwing_handlers 3 ''bad'')]))))
         \<le> 1"
  by (simp add: senderRequestDone_def flat_map_take_def idle_world_def throwing_handlers_def
      new_calls_def calls_for_def)

lemma apply_operation_removes_own:
  assumes "flat_map_inv (requests w)"
  shows "map_of (requests (apply_operation x w)) (operation_id x) = None"
proof -
  have erased: "map_of (flat_map_erase (operation_id x) (requests w)) (operation_id x) = None"
    using assms by (rule map_of_flat_map_erase_same)
  show ?thesis
  proof (cases "map_of (requests w) (operation_id x)")
    case None
    from apply_operation_absent(2) [OF None] show ?thesis .
  next
    case (Some h)
    with erased show ?thesis
      by (cases x)
        (simp_all add: senderRequestDone_present senderRequestFail_present
          senderRequestCancel_def senderRequestDetach_def with_instance_def)
  qed
qed

lemma apply_operation_tight:
  "calls_for k (new_calls w (apply_operation x w)) = []
   \<or> (\<exists>h. map_of (requests w) k = Some h \<and>
        ((\<exists>result. x = Op_complete k result
            \<and> (\<forall>what. done_handler h k result \<noteq> Some (Exception what))
            \<and> calls_for k (new_calls w (apply_operation x w))
                = [Done_call (handlers_tag h) k result])
         \<or> (\<exists>result what. x = Op_complete k result
            \<and> done_handler h k result = Some (Exception what)
            \<and> calls_for k (new_calls w (apply_operation x w))
                = [Done_call (handlers_tag h) k result,
                   Fail_call (handlers_tag h) k
                     (rpcClientError ''RESPONSE_PARSE_FAILED'' (''exception text: '' @ what))])
         \<or> (\<exists>error. x = Op_fail k error
            \<and> calls_for k (new_calls w (apply_operation x w))
                = [Fail_call (handlers_tag h) k error])))"
proof (cases x)
  case (Op_complete k' result)
  show ?thesis
  proof (cases "map_of (requests w) k'")
    case None
    then show ?thesis unfolding Op_complete
      by (simp add: senderRequestDone_absent new_calls_def calls_for_def)
  next
    case (Some h)
    show ?thesis
    proof (cases "k' = k")
      case False
      with Some show ?thesis unfolding Op_complete
        by (simp add: senderRequestDone_def flat_map_take_present Let_def new_calls_def
            calls_for_def split: option.splits exn.splits)
    next
      case True
      show ?thesis
      proof (cases "done_handler h k result")
        case None
        with Some True show ?thesis unfolding Op_complete
          by (simp add: senderRequestDone_def flat_map_take_present Let_def new_calls_def
              calls_for_def)
      next
        case (Some e)
        note thrown = this
        show ?thesis
        proof (cases e)
          case (Exception what)
          with thrown \<open>map_of (requests w) k' = Some h\<close> True show ?thesis unfolding Op_complete
            by (simp add: senderRequestDone_def flat_map_take_present Let_def new_calls_def
                calls_for_def)
        next
          case Other_exception
          with thrown \<open>map_of (requests w) k' = Some h\<close> True show ?thesis unfolding Op_complete
            by (simp add: senderRequestDone_def flat_map_take_present Let_def new_calls_def
                calls_for_def)
        qed
      qed
    qed
  qed
next
  case (Op_fail k' error)
  show ?thesis
  proof (cases "map_of (requests w) k'")
    case None
    then show ?thesis unfolding Op_fail
      by (simp add: senderRequestFail_absent new_calls_def calls_for_def)
  next
    case (Some h)
    then show ?thesis unfolding Op_fail
      by (cases "k' = k")
        (simp_all add: senderRequestFail_def flat_map_take_present new_calls_def calls_for_def)
  qed
next
  case (Op_cancel k')
  then show ?thesis
    by (simp add: senderRequestCancel_def senderRequestDetach_def with_instance_def
        new_calls_def calls_for_def)
next
  case (Op_detach k')
  then show ?thesis
    by (simp add: senderRequestDetach_def new_calls_def calls_for_def)
qed

lemma apply_operation_keeps_pair:
  assumes "flat_map_inv (requests w)"
    and "map_of (requests (apply_operation x w)) k = Some h"
  shows "map_of (requests w) k = Some h"
proof -
  from apply_operation_effect [of x w] obtain k' where
    e: "requests (apply_operation x w) = flat_map_erase k' (requests w)" by blast
  show ?thesis
  proof (cases "k = k'")
    case True
    with e assms show ?thesis by (simp add: map_of_flat_map_erase_same)
  next
    case False
    with e assms(2) show ?thesis by (simp add: map_of_flat_map_erase_other)
  qed
qed

lemma run_operations_tight:
  "flat_map_inv (requests w) \<Longrightarrow>
   calls_for k (new_calls w (run_operations xs w)) = []
   \<or> (\<exists>h. map_of (requests w) k = Some h \<and>
        ((\<exists>result. Op_complete k result \<in> set xs
            \<and> (\<forall>what. done_handler h k result \<noteq> Some (Exception what))
            \<and> calls_for k (new_calls w (run_operations xs w))
                = [Done_call (handlers_tag h) k result])
         \<or> (\<exists>result what. Op_complete k result \<in> set xs
            \<and> done_handler h k result = Some (Exception what)
            \<and> calls_for k (new_calls w (run_operations xs w))
                = [Done_call (handlers_tag h) k result,
                   Fail_call (handlers_tag h) k
                     (rpcClientError ''RESPONSE_PARSE_FAILED'' (''exception text: '' @ what))])
         \<or> (\<exists>error. Op_fail k error \<in> set xs
            \<and> calls_for k (new_calls w (run_operations xs w))
                = [Fail_call (handlers_tag h) k error])))"
proof (induction xs arbitrary: w)
  case Nil
  show ?case by (simp add: new_calls_def calls_for_def)
next
  case (Cons y ys)
  let ?w = "apply_operation y w"
  have inv': "flat_map_inv (requests ?w)" using Cons.prems by (rule apply_operation_inv)
  have total: "calls_for k (new_calls w (run_operations (y # ys) w)) =
     calls_for k (new_calls w ?w) @ calls_for k (new_calls ?w (run_operations ys ?w))"
    by (simp add: calls_for_step)
  show ?case
  proof (cases "calls_for k (new_calls w ?w) = []")
    case True
    with total have same: "calls_for k (new_calls w (run_operations (y # ys) w)) =
        calls_for k (new_calls ?w (run_operations ys ?w))" by simp
    from Cons.IH [OF inv'] show ?thesis
    proof (elim disjE exE conjE)
      assume "calls_for k (new_calls ?w (run_operations ys ?w)) = []"
      with same show ?thesis by simp
    next
      fix h result
      assume "map_of (requests ?w) k = Some h" "Op_complete k result \<in> set ys"
        "\<forall>what. done_handler h k result \<noteq> Some (Exception what)"
        "calls_for k (new_calls ?w (run_operations ys ?w)) = [Done_call (handlers_tag h) k result]"
      with same apply_operation_keeps_pair [OF Cons.prems, of y k h] show ?thesis
        by (intro disjI2 exI [of _ h]) auto
    next
      fix h result what
      assume "map_of (requests ?w) k = Some h" "Op_complete k result \<in> set ys"
        "done_handler h k result = Some (Exception what)"
        "calls_for k (new_calls ?w (run_operations ys ?w))
           = [Done_call (handlers_tag h) k result,
              Fail_call (handlers_tag h) k
                (rpcClientError ''RESPONSE_PARSE_FAILED'' (''exception text: '' @ what))]"
      with same apply_operation_keeps_pair [OF Cons.prems, of y k h] show ?thesis
        by (intro disjI2 exI [of _ h]) auto
    next
      fix h error
      assume "map_of (requests ?w) k = Some h" "Op_fail k error \<in> set ys"
        "calls_for k (new_calls ?w (run_operations ys ?w)) = [Fail_call (handlers_tag h) k error]"
      with same apply_operation_keeps_pair [OF Cons.prems, of y k h] show ?thesis
        by (intro disjI2 exI [of _ h]) auto
    qed
  next
    case False
    from apply_operation_removes [OF Cons.prems False]
    have "map_of (requests ?w) k = None" .
    from run_operations_absent [OF this, of ys] total
    have same: "calls_for k (new_calls w (run_operations (y # ys) w)) =
        calls_for k (new_calls w ?w)" by simp
    from apply_operation_tight [of k w y] False show ?thesis
      unfolding same by (elim disjE exE conjE) auto
  qed
qed

text \<open>
  Claim C2, amended. In any sequence of complete, fail, cancel and detach operations, at
  most one operation invokes a callback for a given id, and the invocations made for the
  id over the whole sequence are one of: none; the done callback of the registered pair,
  once, with the bytes of a complete of the sequence, when it does not throw an
  \<open>Exception\<close>; that done callback followed by the fail callback of the same pair with the
  \<open>RESPONSE_PARSE_FAILED\<close> client error, when the done callback throws an \<open>Exception\<close>; the
  fail callback of the registered pair, once, with the error of a fail of the sequence.
  So the done callback is invoked at most once and the fail callback at most once; once
  the id has no entry, no operation of the sequence invokes a callback for it; and after
  any one of these operations on the id, no later operation invokes a callback for it.
\<close>

theorem handlers_used_by_one_operation:
  "flat_map_inv (requests w) \<Longrightarrow>
   invoking_operations requestId xs w \<le> 1
   \<and> length (filter is_done_call (calls_for requestId (new_calls w (run_operations xs w)))) \<le> 1
   \<and> length (filter (\<lambda>c. \<not> is_done_call c)
               (calls_for requestId (new_calls w (run_operations xs w)))) \<le> 1
   \<and> (map_of (requests w) requestId = None \<longrightarrow>
        calls_for requestId (new_calls w (run_operations xs w)) = [])
   \<and> (operation_id x = requestId \<longrightarrow>
        calls_for requestId
          (new_calls (apply_operation x w) (run_operations xs (apply_operation x w))) = [])
   \<and> (calls_for requestId (new_calls w (run_operations xs w)) = []
      \<or> (\<exists>h. map_of (requests w) requestId = Some h \<and>
        ((\<exists>result. Op_complete requestId result \<in> set xs
            \<and> (\<forall>what. done_handler h requestId result \<noteq> Some (Exception what))
            \<and> calls_for requestId (new_calls w (run_operations xs w))
                = [Done_call (handlers_tag h) requestId result])
         \<or> (\<exists>result what. Op_complete requestId result \<in> set xs
            \<and> done_handler h requestId result = Some (Exception what)
            \<and> calls_for requestId (new_calls w (run_operations xs w))
                = [Done_call (handlers_tag h) requestId result,
                   Fail_call (handlers_tag h) requestId
                     (rpcClientError ''RESPONSE_PARSE_FAILED'' (''exception text: '' @ what))])
         \<or> (\<exists>error. Op_fail requestId error \<in> set xs
            \<and> calls_for requestId (new_calls w (run_operations xs w))
                = [Fail_call (handlers_tag h) requestId error]))))"
proof -
  assume inv: "flat_map_inv (requests w)"
  note exact = run_operations_tight [OF inv, of requestId xs]
  have later: "operation_id x = requestId \<longrightarrow>
        calls_for requestId
          (new_calls (apply_operation x w) (run_operations xs (apply_operation x w))) = []"
    using apply_operation_removes_own [OF inv, of x]
      run_operations_absent [of "apply_operation x w" requestId xs] by blast
  have counts: "invoking_operations requestId xs w \<le> 1
   \<and> length (filter is_done_call (calls_for requestId (new_calls w (run_operations xs w)))) \<le> 1
   \<and> length (filter (\<lambda>c. \<not> is_done_call c)
               (calls_for requestId (new_calls w (run_operations xs w)))) \<le> 1
   \<and> (map_of (requests w) requestId = None \<longrightarrow>
        calls_for requestId (new_calls w (run_operations xs w)) = [])"
    using inv
  proof (induction xs arbitrary: w)
    case Nil
    show ?case by (simp add: new_calls_def calls_for_def)
  next
    case (Cons y ys)
    let ?w = "apply_operation y w"
    have inv': "flat_map_inv (requests ?w)" using Cons.prems by (rule apply_operation_inv)
    note IH = Cons.IH [OF inv']
    note one = apply_operation_counts [of requestId w y]
    have absent: "map_of (requests w) requestId = None \<longrightarrow>
          calls_for requestId (new_calls w (run_operations (y # ys) w)) = []"
      using run_operations_absent [of w requestId "y # ys"] by blast
    show ?case
    proof (cases "calls_for requestId (new_calls w ?w) = []")
      case True
      with IH absent show ?thesis by (simp add: calls_for_step)
    next
      case False
      from apply_operation_removes [OF Cons.prems False]
      have "map_of (requests ?w) requestId = None" .
      from run_operations_absent [OF this, of ys] False one absent show ?thesis
        by (simp add: calls_for_step)
    qed
  qed
  from counts later exact show ?thesis by blast
qed

theorem handlers_used_by_one_operation_witness:
  "flat_map_inv (requests (idle_world [(1, throwing_handlers 3 ''bad'')]))
   \<and> invoking_operations 1
       [Op_complete 1 [], Op_fail 1 (rpcClientError ''E'' ''d''), Op_cancel 1, Op_detach 1,
        Op_complete 1 [7]]
       (idle_world [(1, throwing_handlers 3 ''bad'')]) \<le> 1
   \<and> length (filter is_done_call (calls_for 1 (new_calls (idle_world [(1, throwing_handlers 3 ''bad'')])
        (run_operations
           [Op_complete 1 [], Op_fail 1 (rpcClientError ''E'' ''d''), Op_cancel 1, Op_detach 1,
            Op_complete 1 [7]]
           (idle_world [(1, throwing_handlers 3 ''bad'')]))))) \<le> 1
   \<and> map_of (requests (idle_world [(1, throwing_handlers 3 ''bad'')])) 2 = None
   \<and> calls_for 2 (new_calls (idle_world [(1, throwing_handlers 3 ''bad'')])
        (run_operations [Op_complete 2 [], Op_fail 2 (rpcClientError ''E'' ''d'')]
           (idle_world [(1, throwing_handlers 3 ''bad'')]))) = []
   \<and> operation_id (Op_cancel 1) = 1
   \<and> calls_for 1
        (new_calls (apply_operation (Op_cancel 1) (idle_world [(1, throwing_handlers 3 ''bad'')]))
           (run_operations [Op_complete 1 [], Op_fail 1 (rpcClientError ''E'' ''d'')]
              (apply_operation (Op_cancel 1) (idle_world [(1, throwing_handlers 3 ''bad'')]))))
       = []
   \<and> map_of (requests (idle_world [(1, throwing_handlers 3 ''bad'')])) 1
       = Some (throwing_handlers 3 ''bad'')
   \<and> Op_complete 1 [] \<in> set
       [Op_complete 1 [], Op_fail 1 (rpcClientError ''E'' ''d''), Op_cancel 1, Op_detach 1,
        Op_complete 1 [7]]
   \<and> done_handler (throwing_handlers 3 ''bad'') 1 [] = Some (Exception ''bad'')
   \<and> calls_for 1 (new_calls (idle_world [(1, throwing_handlers 3 ''bad'')])
        (run_operations
           [Op_complete 1 [], Op_fail 1 (rpcClientError ''E'' ''d''), Op_cancel 1, Op_detach 1,
            Op_complete 1 [7]]
           (idle_world [(1, throwing_handlers 3 ''bad'')])))
       = [Done_call 3 1 [],
          Fail_call 3 1 (rpcClientError ''RESPONSE_PARSE_FAILED'' ''exception text: bad'')]"
proof -
  let ?W = "idle_world [(1, throwing_handlers 3 ''bad'')]"
  have i: "flat_map_inv (requests ?W)" by (simp add: idle_world_def flat_map_inv_def)
  have p: "map_of (requests ?W) 1 = Some (throwing_handlers 3 ''bad'')"
    by (simp add: idle_world_def)
  have m: "Op_complete 1 [] \<in> set
       [Op_complete 1 [], Op_fail 1 (rpcClientError ''E'' ''d''), Op_cancel 1, Op_detach 1,
        Op_complete 1 [7]]" by simp
  have d: "done_handler (throwing_handlers 3 ''bad'') 1 [] = Some (Exception ''bad'')"
    by (simp add: throwing_handlers_def)
  have v: "calls_for 1 (new_calls ?W
        (run_operations
           [Op_complete 1 [], Op_fail 1 (rpcClientError ''E'' ''d''), Op_cancel 1, Op_detach 1,
            Op_complete 1 [7]] ?W))
       = [Done_call 3 1 [],
          Fail_call 3 1 (rpcClientError ''RESPONSE_PARSE_FAILED'' ''exception text: bad'')]"
    by (simp add: senderRequestDone_def senderRequestFail_def senderRequestCancel_def
        senderRequestDetach_def with_instance_def flat_map_take_def idle_world_def
        throwing_handlers_def new_calls_def calls_for_def)
  have a: "map_of (requests ?W) 2 = None" by (simp add: idle_world_def)
  have o: "operation_id (Op_cancel 1) = 1" by simp
  note t1 = handlers_used_by_one_operation [where w = ?W and requestId = 1
      and xs = "[Op_complete 1 [], Op_fail 1 (rpcClientError ''E'' ''d''), Op_cancel 1,
                 Op_detach 1, Op_complete 1 [7]]", OF i]
  note t2 = handlers_used_by_one_operation [where w = ?W and requestId = 2
      and xs = "[Op_complete 2 [], Op_fail 2 (rpcClientError ''E'' ''d'')]", OF i]
  note t3 = handlers_used_by_one_operation [where w = ?W and requestId = 1
      and x = "Op_cancel 1"
      and xs = "[Op_complete 1 [], Op_fail 1 (rpcClientError ''E'' ''d'')]", OF i]
  from t3 o have c: "calls_for 1
        (new_calls (apply_operation (Op_cancel 1) ?W)
           (run_operations [Op_complete 1 [], Op_fail 1 (rpcClientError ''E'' ''d'')]
              (apply_operation (Op_cancel 1) ?W))) = []" by blast
  from i a o t1 t2 c p m d v show ?thesis by blast
qed

section \<open>Sending a request\<close>

text \<open>
  Claim C7 (\<open>send\<close> registers, then posts the hand-off, then returns the id). The id
  returned is the one the generator gave; the pair was registered before the hand-off
  closure was posted; on return the id is in the mapping, the closure is the last one
  waiting for the main thread and no call has been made on the engine. When every pending
  id came from the generator, the id was not pending before and its entry is the
  builder's pair.
\<close>

theorem send_registers_then_returns:
  "send b w =
     (last_request_id w + 1,
      with_instance
        (Send_task (last_request_id w + 1) (builder_serialized b) (builder_failSkipPolicy b)
           (builder_dcId b) (builder_canWait b) (builder_afterRequestId b))
        (senderRequestRegister (last_request_id w + 1) (builder_handlers b)
           (snd (GetNextRequestId w))))
   \<and> fst (send b w) = fst (GetNextRequestId w)
   \<and> map_of (requests (snd (send b w))) (fst (send b w)) \<noteq> None
   \<and> ((\<forall>k \<in> fst ` set (requests w). k \<le> last_request_id w) \<longrightarrow>
         map_of (requests w) (fst (send b w)) = None
         \<and> map_of (requests (snd (send b w))) (fst (send b w)) = Some (builder_handlers b))
   \<and> main_queue (snd (send b w)) = main_queue w @
        [Send_task (fst (send b w)) (builder_serialized b) (builder_failSkipPolicy b)
           (builder_dcId b) (builder_canWait b) (builder_afterRequestId b)]
   \<and> engine_calls (snd (send b w)) = engine_calls w
   \<and> runner_queue (snd (send b w)) = runner_queue w
   \<and> calls (snd (send b w)) = calls w"
proof -
  let ?id = "last_request_id w + 1"
  have eq: "send b w =
     (?id,
      with_instance
        (Send_task ?id (builder_serialized b) (builder_failSkipPolicy b)
           (builder_dcId b) (builder_canWait b) (builder_afterRequestId b))
        (senderRequestRegister ?id (builder_handlers b) (snd (GetNextRequestId w))))"
    by (simp add: send_def GetNextRequestId_def)
  have id: "fst (send b w) = ?id" by (simp add: eq)
  have gen: "fst (GetNextRequestId w) = ?id" by (simp add: GetNextRequestId_def)
  have reqs: "requests (snd (send b w)) =
                flat_map_emplace ?id (builder_handlers b) (requests w)"
    by (simp add: eq with_instance_def senderRequestRegister_def GetNextRequestId_def)
  have present: "map_of (requests (snd (send b w))) (fst (send b w)) \<noteq> None"
    unfolding id reqs by (rule map_of_flat_map_emplace_same)
  have fresh: "map_of (requests w) ?id = None"
    if "\<forall>k \<in> fst ` set (requests w). k \<le> last_request_id w"
  proof (rule ccontr)
    assume "map_of (requests w) ?id \<noteq> None"
    then have "?id \<in> fst ` set (requests w)" by (simp add: map_of_eq_None_iff)
    with that have "?id \<le> last_request_id w" by blast
    then show False by simp
  qed
  have registered:
    "(\<forall>k \<in> fst ` set (requests w). k \<le> last_request_id w) \<longrightarrow>
         map_of (requests w) (fst (send b w)) = None
         \<and> map_of (requests (snd (send b w))) (fst (send b w)) = Some (builder_handlers b)"
    unfolding id reqs using fresh by (simp add: map_of_flat_map_emplace_absent)
  have rest:
    "main_queue (snd (send b w)) = main_queue w @
        [Send_task (fst (send b w)) (builder_serialized b) (builder_failSkipPolicy b)
           (builder_dcId b) (builder_canWait b) (builder_afterRequestId b)]"
    "engine_calls (snd (send b w)) = engine_calls w"
    "runner_queue (snd (send b w)) = runner_queue w"
    "calls (snd (send b w)) = calls w"
    by (simp_all add: eq with_instance_def senderRequestRegister_def GetNextRequestId_def)
  from eq id gen present registered rest show ?thesis by simp
qed

theorem send_registers_then_returns_witness:
  "map fst (requests (idle_world [(1, quiet_handlers 5)])) = [1]
   \<and> 1 \<le> last_request_id (idle_world [(1, quiet_handlers 5)])
   \<and> fst (send sample_builder (idle_world [(1, quiet_handlers 5)])) = 101
   \<and> map_of (requests (snd (send sample_builder (idle_world [(1, quiet_handlers 5)])))) 101
       = Some (quiet_handlers 8)
   \<and> main_queue (snd (send sample_builder (idle_world [(1, quiet_handlers 5)])))
       = [Send_task 101 [1, 2] Simple 2 0 0]
   \<and> engine_calls (snd (send sample_builder (idle_world [(1, quiet_handlers 5)]))) = []"
proof -
  let ?W = "idle_world [(1, quiet_handlers 5)]"
  have g: "map fst (requests ?W) = [1]" "1 \<le> last_request_id ?W"
    by (simp_all add: idle_world_def)
  have "fst ` set (requests ?W) = set (map fst (requests ?W))" by simp
  with g have h: "\<forall>k \<in> fst ` set (requests ?W). k \<le> last_request_id ?W"
    by (simp only: list.set ball_simps simp_thms)
  have v: "last_request_id ?W + 1 = 101" "main_queue ?W = []" "engine_calls ?W = []"
    "builder_handlers sample_builder = quiet_handlers 8"
    "builder_serialized sample_builder = [1, 2]"
    "builder_failSkipPolicy sample_builder = Simple"
    "builder_dcId sample_builder = 2" "builder_canWait sample_builder = 0"
    "builder_afterRequestId sample_builder = 0"
    by (simp_all add: idle_world_def sample_builder_def)
  note t = send_registers_then_returns [where b = sample_builder and w = ?W]
  from t have t1: "fst (send sample_builder ?W) = 101"
    by (simp only: fst_conv v)
  from t h have t2: "map_of (requests (snd (send sample_builder ?W))) (fst (send sample_builder ?W))
        = Some (builder_handlers sample_builder)" by blast
  from t have t3: "main_queue (snd (send sample_builder ?W)) = main_queue ?W @
        [Send_task (fst (send sample_builder ?W)) (builder_serialized sample_builder)
           (builder_failSkipPolicy sample_builder) (builder_dcId sample_builder)
           (builder_canWait sample_builder) (builder_afterRequestId sample_builder)]"
    and t4: "engine_calls (snd (send sample_builder ?W)) = engine_calls ?W" by blast+
  from g t1 t2 t3 t4 show ?thesis by (simp only: v append_Nil simp_thms)
qed

section \<open>After the sender is destroyed\<close>

lemma step_after_destruction:
  assumes dead: "\<not> alive w"
  shows "\<not> alive (step isDefaultHandledError isFloodError e w)
         \<and> calls (step isDefaultHandledError isFloodError e w) = calls w"
proof (cases e)
  case (Engine_done requestId response)
  with dead show ?thesis by (simp add: RPCDoneHandler_call_def runner_def)
next
  case (Engine_fail skipPolicy requestId error)
  with dead show ?thesis by (simp add: RPCFailHandler_call_def runner_def)
next
  case (Runner_runs n)
  show ?thesis
  proof (cases "runner_queue w ! n")
    case (Done_cont requestId moved)
    with dead Runner_runs show ?thesis by simp
  next
    case (Fail_cont requestId error)
    with dead Runner_runs show ?thesis by simp
  qed
next
  case (Main_runs present)
  show ?thesis
  proof (cases "main_queue w")
    case Nil
    with dead Main_runs show ?thesis by simp
  next
    case (Cons t ts)
    with dead Main_runs show ?thesis by (cases t) simp_all
  qed
qed

lemma run_events_after_destruction:
  "\<not> alive w \<Longrightarrow> calls (run_events isDefaultHandledError isFloodError es w) = calls w"
proof (induction es arbitrary: w)
  case Nil
  show ?case by simp
next
  case (Cons e es)
  from step_after_destruction [OF Cons.prems, of isDefaultHandledError isFloodError e]
    Cons.IH [of "step isDefaultHandledError isFloodError e w"]
  show ?case by simp
qed

text \<open>
  Claim C9 (nothing fires after destruction). The destructor empties the mapping and
  posts one closure whose list holds every id that was pending, so that each of them is
  cancelled on the engine when the closure runs with an instance; from then on, whatever
  the engine delivers to the response handlers and whichever closures the runner and the
  main thread run, including closures that were already waiting, no callback is invoked.
\<close>

theorem destroy_silences_handlers:
  "requests (destroy w) = [] \<and> \<not> alive (destroy w)
   \<and> main_queue (destroy w) = main_queue w @
        [CancelAll_task (replicate (length (requests w)) 0 @ map fst (requests w))]
   \<and> (\<forall>k \<in> fst ` set (requests w).
         Engine_cancel k \<in> set (engine_calls
           (run_main_task True
              (CancelAll_task (replicate (length (requests w)) 0 @ map fst (requests w)))
              (destroy w))))
   \<and> calls (run_events isDefaultHandledError isFloodError es (destroy w)) = calls w"
proof -
  have d: "destroy w =
     w\<lparr>alive := False, requests := [],
       main_queue := main_queue w @
         [CancelAll_task (replicate (length (requests w)) 0 @ map fst (requests w))]\<rparr>"
    by (simp add: destroy_def senderRequestCancelAll_eq)
  have dead: "\<not> alive (destroy w)" by (simp add: d)
  have silent: "calls (run_events isDefaultHandledError isFloodError es (destroy w)) = calls w"
    using run_events_after_destruction [OF dead, of isDefaultHandledError isFloodError es]
    by (simp add: d)
  have cancelled: "\<forall>k \<in> fst ` set (requests w).
         Engine_cancel k \<in> set (engine_calls
           (run_main_task True
              (CancelAll_task (replicate (length (requests w)) 0 @ map fst (requests w)))
              (destroy w)))"
    by (auto simp: d)
  from d dead silent cancelled show ?thesis by simp
qed

theorem destroy_silences_handlers_witness:
  "1 \<in> fst ` set (requests (idle_world [(1, quiet_handlers 1), (2, quiet_handlers 2)]))
   \<and> 2 \<in> fst ` set (requests (idle_world [(1, quiet_handlers 1), (2, quiet_handlers 2)]))
   \<and> main_queue (destroy (idle_world [(1, quiet_handlers 1), (2, quiet_handlers 2)]))
       = [CancelAll_task [0, 0, 1, 2]]
   \<and> Engine_cancel 1 \<in> set (engine_calls
         (run_main_task True (CancelAll_task [0, 0, 1, 2])
            (destroy (idle_world [(1, quiet_handlers 1), (2, quiet_handlers 2)]))))
   \<and> Engine_cancel 2 \<in> set (engine_calls
         (run_main_task True (CancelAll_task [0, 0, 1, 2])
            (destroy (idle_world [(1, quiet_handlers 1), (2, quiet_handlers 2)]))))
   \<and> calls (run_events sample_isDefaultHandledError sample_isFloodError
         [Engine_done 1 [79, 75], Runner_runs 0,
          Engine_fail HandleAll 2 (rpcClientError ''E'' ''d''), Runner_runs 0, Main_runs True]
         (destroy (idle_world [(1, quiet_handlers 1), (2, quiet_handlers 2)])))
       = []"
proof -
  let ?W = "idle_world [(1, quiet_handlers 1), (2, quiet_handlers 2)]"
  have h: "1 \<in> fst ` set (requests ?W)" "2 \<in> fst ` set (requests ?W)"
    by (simp_all add: idle_world_def)
  have v: "replicate (length (requests ?W)) 0 @ map fst (requests ?W) = [0, 0, 1, 2]"
    "main_queue ?W = []" "calls ?W = []"
    by (simp_all add: idle_world_def)
  note t = destroy_silences_handlers
    [where w = ?W and isDefaultHandledError = sample_isDefaultHandledError
       and isFloodError = sample_isFloodError
       and es = "[Engine_done 1 [79, 75], Runner_runs 0,
          Engine_fail HandleAll 2 (rpcClientError ''E'' ''d''), Runner_runs 0, Main_runs True]",
      unfolded v]
  from t have t1: "main_queue (destroy ?W) = [] @ [CancelAll_task [0, 0, 1, 2]]" by blast
  from t h have t2: "Engine_cancel 1 \<in> set (engine_calls
         (run_main_task True (CancelAll_task [0, 0, 1, 2]) (destroy ?W)))"
    and t3: "Engine_cancel 2 \<in> set (engine_calls
         (run_main_task True (CancelAll_task [0, 0, 1, 2]) (destroy ?W)))" by blast+
  from t have t4: "calls (run_events sample_isDefaultHandledError sample_isFloodError
         [Engine_done 1 [79, 75], Runner_runs 0,
          Engine_fail HandleAll 2 (rpcClientError ''E'' ''d''), Runner_runs 0, Main_runs True]
         (destroy ?W)) = []" by blast
  from h t1 t2 t3 t4 show ?thesis by (simp only: append_Nil simp_thms)
qed

end
